theory Spec2Isabelle
  imports Complex_Main
begin

section \<open>Python values and exceptions\<close>

text \<open>
  Every exception the modelled code (or a library routine it calls) can raise is a value.
  The extractor raises \<^verbatim>\<open>ValueError\<close> with four different messages; the message is kept
  as the argument of \<open>ValueError\<close>, so that the four rejections stay distinguishable.
\<close>

datatype value_error =
    InvalidNdim nat
  | InvalidShapeRGB "nat list"
  | InvalidShapeRGBA "nat list"
  | InvalidFileFormat string
  | FloatNaNToInteger
  | NpixNotDivisibleBy12
  | NpixNotNsideSquare
  | MaxWorkersNotPositive
  | FormatString

datatype py_error =
    ValueError value_error
  | OverflowError
  | IndexError
  | ZeroDivisionError
  | HTTPError nat
  | URLError
  | TimeoutError
  | ClientConnectionError

type_synonym bytes = string

text \<open>Running a fallible operation over a list stops at the first exception.\<close>

fun mapM :: "('a \<Rightarrow> py_error + 'b) \<Rightarrow> 'a list \<Rightarrow> py_error + 'b list" where
  "mapM f [] = Inr []"
| "mapM f (x # xs) =
     (case f x of
        Inl e \<Rightarrow> Inl e
      | Inr y \<Rightarrow> (case mapM f xs of Inl e \<Rightarrow> Inl e | Inr ys \<Rightarrow> Inr (y # ys)))"

section \<open>Arrays\<close>

text \<open>
  A numpy array is its shape together with its elements in row-major order. The rank
  (\<^verbatim>\<open>ndim\<close>) is the length of the shape, and a well-formed array has as many elements
  as its shape says.
\<close>

record 'a ndarray =
  shape :: "nat list"
  flat :: "'a list"

definition ndim :: "'a ndarray \<Rightarrow> nat" where
  "ndim a = length (shape a)"

definition wf_ndarray :: "'a ndarray \<Rightarrow> bool" where
  "wf_ndarray a = (length (flat a) = prod_list (shape a))"

text \<open>
  Indexing one axis of length \<open>n\<close> with the integer \<open>i\<close>: numpy accepts \<open>-n \<le> i < n\<close>,
  a negative index counting from the end, and raises \<^verbatim>\<open>IndexError\<close> otherwise.
\<close>

definition np_index :: "nat \<Rightarrow> int \<Rightarrow> py_error + nat" where
  "np_index n i =
     (if - int n \<le> i \<and> i < int n then Inr (nat (i mod int n)) else Inl IndexError)"

text \<open>Row \<open>k\<close> of a rank-2 array with \<open>c\<close> columns.\<close>

definition np_row :: "nat \<Rightarrow> 'a list \<Rightarrow> nat \<Rightarrow> 'a list" where
  "np_row c xs k = take c (drop (k * c) xs)"

text \<open>
  \<^verbatim>\<open>hpx_data[ipix]\<close> on a rank-1 array and \<^verbatim>\<open>hpx_data[ipix, :]\<close> on a rank-2 array, for a
  two-dimensional integer index array \<open>ipix\<close>: the result has the shape of \<open>ipix\<close> (with the
  channel axis appended in the second case).
\<close>

definition gather1 :: "nat \<Rightarrow> 'a list \<Rightarrow> int list list \<Rightarrow> py_error + 'a list list" where
  "gather1 n xs ipix_abs =
     mapM (mapM (\<lambda>i. case np_index n i of
                        Inl e \<Rightarrow> Inl e
                      | Inr k \<Rightarrow> Inr (xs ! k))) ipix_abs"

definition gather2 :: "nat \<Rightarrow> nat \<Rightarrow> 'a list \<Rightarrow> int list list \<Rightarrow> py_error + 'a list list list" where
  "gather2 n c xs ipix_abs =
     mapM (mapM (\<lambda>i. case np_index n i of
                        Inl e \<Rightarrow> Inl e
                      | Inr k \<Rightarrow> Inr (np_row c xs k))) ipix_abs"

text \<open>
  \<^verbatim>\<open>np.rot90\<close> turns the first two axes a quarter turn counter-clockwise: an array of
  \<open>r\<close> rows and \<open>c\<close> columns becomes one of \<open>c\<close> rows and \<open>r\<close> columns whose entry
  \<open>(i, j)\<close> is the old entry \<open>(j, c - 1 - i)\<close>.
\<close>

definition ncols :: "'p list list \<Rightarrow> nat" where
  "ncols m = (case m of [] \<Rightarrow> 0 | row # _ \<Rightarrow> length row)"

definition rot90 :: "'p list list \<Rightarrow> 'p list list" where
  "rot90 m =
     map (\<lambda>i. map (\<lambda>j. m ! j ! (ncols m - 1 - i)) [0..<length m]) [0..<ncols m]"

text \<open>The tile buffer: two axes for FITS, a third (channel) axis for JPG and PNG.\<close>

datatype 'a pixbuf = Gray "'a list list" | Color "'a list list list"

fun rot90_buf :: "'a pixbuf \<Rightarrow> 'a pixbuf" where
  "rot90_buf (Gray m) = Gray (rot90 m)"
| "rot90_buf (Color m) = Color (rot90 m)"

section \<open>Tiles\<close>

text \<open>
  \<^verbatim>\<open>HipsTileMeta\<close> and \<^verbatim>\<open>HipsTile\<close> are value objects. The fetcher builds a meta without a
  width (the class default applies), the extractor passes one, so \<open>width\<close> is optional.
  \<^verbatim>\<open>HipsTile.from_numpy\<close> and the \<^verbatim>\<open>HipsTile\<close> constructor both pair a meta with a
  payload; the image codecs behind them are outside this development.
\<close>

record HipsTileMeta =
  order :: int
  ipix :: int
  file_format :: string
  frame :: string
  width :: "int option"

record 'd HipsTile =
  meta :: HipsTileMeta
  raw_data :: 'd

definition from_numpy :: "HipsTileMeta \<Rightarrow> 'd \<Rightarrow> 'd HipsTile" where
  "from_numpy m d = \<lparr>meta = m, raw_data = d\<rparr>"

section \<open>Library arithmetic\<close>

text \<open>
  \<^verbatim>\<open>int(np.log2(x))\<close> for an integer \<open>x\<close>: the logarithm of zero is minus infinity and
  that of a negative number is NaN, and \<^verbatim>\<open>int\<close> raises on both
  (\<^verbatim>\<open>OverflowError\<close>, \<^verbatim>\<open>ValueError\<close>); for a positive \<open>x\<close> the result is the integer
  part of the binary logarithm. The logarithm is a double: it is exact on powers of two,
  which is all the statements below rely on, and can round up to the next integer just
  below a power of two from about \<open>2\<^sup>4\<^sup>7\<close> on.
\<close>

fun floor_log2 :: "nat \<Rightarrow> nat" where
  "floor_log2 n = (if n < 2 then 0 else Suc (floor_log2 (n div 2)))"

declare floor_log2.simps [simp del]

definition int_log2 :: "int \<Rightarrow> py_error + nat" where
  "int_log2 x =
     (if x = 0 then Inl OverflowError
      else if x < 0 then Inl (ValueError FloatNaNToInteger)
      else Inr (floor_log2 (nat x)))"

text \<open>
  \<^verbatim>\<open>astropy_healpix.healpy.npix2nside\<close>: the pixel count must be divisible by twelve and
  the twelfth must be a square (\<^verbatim>\<open>ValueError\<close> otherwise), and the side is the root of
  the twelfth. The caller passes the quotient \<^verbatim>\<open>hpx_npix / tile_width ** 2\<close>, a float,
  which the library converts to an integer by dropping the fraction; the argument of
  \<open>npix2nside\<close> below is that integer.
\<close>

definition npix2nside :: "nat \<Rightarrow> py_error + nat" where
  "npix2nside npix =
     (if npix mod 12 \<noteq> 0 then Inl (ValueError NpixNotDivisibleBy12)
      else case find (\<lambda>r. r * r = npix div 12) [0..<Suc (npix div 12)] of
             None \<Rightarrow> Inl (ValueError NpixNotNsideSquare)
           | Some r \<Rightarrow> Inr r)"

section \<open>The tile extractor\<close>

text \<open>
  \<^verbatim>\<open>hips_tile_healpix_ipix_array\<close> lives in \<^verbatim>\<open>hips.utils.healpix\<close> and is a parameter
  \<open>helper\<close> here: given the shift order it returns the two-dimensional array of nested
  pixel offsets of one tile, or raises. The steps of \<^verbatim>\<open>healpix_to_hips_tile\<close> follow the
  source in order: shift order, helper, absolute indices, validation and gather by
  format, quarter turn, order of the source map, meta, tile.
\<close>

definition shape_check_gather ::
  "'a ndarray \<Rightarrow> int list list \<Rightarrow> string \<Rightarrow> py_error + 'a pixbuf" where
  "shape_check_gather hpx_data ipix_abs fmt =
     (if fmt = ''fits'' then
        (if ndim hpx_data \<noteq> 1 then Inl (ValueError (InvalidNdim (ndim hpx_data)))
         else map_sum id Gray (gather1 (shape hpx_data ! 0) (flat hpx_data) ipix_abs))
      else if fmt = ''jpg'' then
        (if ndim hpx_data \<noteq> 2 \<or> shape hpx_data ! 1 \<noteq> 3
         then Inl (ValueError (InvalidShapeRGB (shape hpx_data)))
         else map_sum id Color
                (gather2 (shape hpx_data ! 0) (shape hpx_data ! 1) (flat hpx_data) ipix_abs))
      else if fmt = ''png'' then
        (if ndim hpx_data \<noteq> 2 \<or> shape hpx_data ! 1 \<noteq> 4
         then Inl (ValueError (InvalidShapeRGBA (shape hpx_data)))
         else map_sum id Color
                (gather2 (shape hpx_data ! 0) (shape hpx_data ! 1) (flat hpx_data) ipix_abs))
      else Inl (ValueError (InvalidFileFormat fmt)))"

definition absolute_ipix :: "int list list \<Rightarrow> int \<Rightarrow> int \<Rightarrow> int list list" where
  "absolute_ipix hpx_ipix tile_width tile_idx =
     (let offset_ipix = tile_idx * tile_width ^ 2
      in map (map (\<lambda>p. p + offset_ipix)) hpx_ipix)"

definition source_order :: "'a ndarray \<Rightarrow> int \<Rightarrow> py_error + nat" where
  "source_order hpx_data tile_width =
     (let hpx_npix = shape hpx_data ! 0
      in case npix2nside (hpx_npix div nat (tile_width ^ 2)) of
           Inl e \<Rightarrow> Inl e
         | Inr hpx_nside \<Rightarrow> int_log2 (int hpx_nside))"

definition healpix_to_hips_tile ::
  "(nat \<Rightarrow> py_error + int list list) \<Rightarrow> 'a ndarray \<Rightarrow> int \<Rightarrow> int \<Rightarrow> string \<Rightarrow> string
     \<Rightarrow> py_error + 'a pixbuf HipsTile" where
  "healpix_to_hips_tile helper hpx_data tile_width tile_idx fmt frm =
     (case int_log2 tile_width of
        Inl e \<Rightarrow> Inl e
      | Inr shift_order \<Rightarrow>
     (case helper shift_order of
        Inl e \<Rightarrow> Inl e
      | Inr hpx_ipix \<Rightarrow>
     (case shape_check_gather hpx_data (absolute_ipix hpx_ipix tile_width tile_idx) fmt of
        Inl e \<Rightarrow> Inl e
      | Inr gathered \<Rightarrow>
     (case source_order hpx_data tile_width of
        Inl e \<Rightarrow> Inl e
      | Inr hpx_order \<Rightarrow>
          Inr (from_numpy
                 \<lparr>order = int hpx_order, ipix = tile_idx, file_format = fmt,
                  frame = frm, width = Some tile_width\<rparr>
                 (rot90_buf gathered))))))"

section \<open>The converter\<close>

text \<open>
  The converter's effects are the directories it creates and the files it writes, in
  the order it does so. A path is its list of components; \<^verbatim>\<open>tile_default_path\<close> is a
  property of \<^verbatim>\<open>HipsTileMeta\<close> and a parameter here. The descriptor is the dictionary
  handed to \<^verbatim>\<open>HipsSurveyProperties\<close>. The writers themselves are collaborators and are
  taken to succeed.
\<close>

type_synonym path = "string list"

datatype prop_value = StrVal string | IntVal int

type_synonym descriptor = "(string \<times> prop_value) list"

datatype 'd fs_event =
    Mkdir path
  | WriteProperties path descriptor
  | WriteTile path "'d HipsTile"

definition parent :: "path \<Rightarrow> path" where
  "parent p = butlast p"

fun write_tiles ::
  "(nat \<Rightarrow> py_error + int list list) \<Rightarrow> (HipsTileMeta \<Rightarrow> path) \<Rightarrow> 'a ndarray \<Rightarrow> int \<Rightarrow> path
     \<Rightarrow> string \<Rightarrow> string \<Rightarrow> nat list \<Rightarrow> 'a pixbuf fs_event list
     \<Rightarrow> 'a pixbuf fs_event list \<times> py_error option" where
  "write_tiles helper tile_default_path hpx_data tile_width base_path fmt frm [] fs =
     (fs, None)"
| "write_tiles helper tile_default_path hpx_data tile_width base_path fmt frm
     (tile_idx # rest) fs =
     (case healpix_to_hips_tile helper hpx_data tile_width (int tile_idx) fmt frm of
        Inl e \<Rightarrow> (fs, Some e)
      | Inr tile \<Rightarrow>
          (let p = base_path @ tile_default_path (meta tile)
           in write_tiles helper tile_default_path hpx_data tile_width base_path fmt frm
                rest (fs @ [Mkdir (parent p), WriteTile p tile])))"

definition healpix_to_hips ::
  "(nat \<Rightarrow> py_error + int list list) \<Rightarrow> (HipsTileMeta \<Rightarrow> path) \<Rightarrow> 'a ndarray \<Rightarrow> int \<Rightarrow> path
     \<Rightarrow> string \<Rightarrow> string \<Rightarrow> 'a pixbuf fs_event list
     \<Rightarrow> 'a pixbuf fs_event list \<times> py_error option" where
  "healpix_to_hips helper tile_default_path hpx_data tile_width base_path fmt frm fs =
     (let fs1 = fs @ [Mkdir base_path,
                      WriteProperties (base_path @ [''properties''])
                        [(''hips_tile_format'', StrVal fmt),
                         (''hips_tile_width'', IntVal tile_width),
                         (''hips_frame'', StrVal frm)]]
      in if ndim hpx_data = 0 then (fs1, Some IndexError)
         else if tile_width = 0 then (fs1, Some ZeroDivisionError)
         else let n_tiles = shape hpx_data ! 0 div nat (tile_width ^ 2)
              in write_tiles helper tile_default_path hpx_data tile_width base_path fmt frm
                   [0..<n_tiles] fs1)"

section \<open>Format strings\<close>

text \<open>
  \<^verbatim>\<open>url.format(idx)\<close> scans the string from the left: text is copied, a doubled brace
  stands for one brace, a single closing brace is an error, and a single opening brace
  starts a replacement field. What a replacement field renders to, how much of the string
  it takes and what it does to the field numbering is the format mini-language of the
  argument; it is the parameter \<open>fld\<close>, which gets the numbering state, the text after
  the opening brace and the argument, and returns the rendered text, the number of
  characters consumed and the new state.
\<close>

type_synonym 's field_renderer = "'s \<Rightarrow> string \<Rightarrow> int \<Rightarrow> py_error + string \<times> nat \<times> 's"

function str_format :: "'s field_renderer \<Rightarrow> 's \<Rightarrow> string \<Rightarrow> int \<Rightarrow> py_error + string" where
  "str_format fld st [] arg = Inr []"
| "str_format fld st (c # cs) arg =
     (if c = CHR ''{'' then
        (case cs of
           d # ds \<Rightarrow>
             if d = CHR ''{'' then map_sum id ((#) CHR ''{'') (str_format fld st ds arg)
             else (case fld st cs arg of
                     Inl e \<Rightarrow> Inl e
                   | Inr (txt, n, st') \<Rightarrow> map_sum id ((@) txt) (str_format fld st' (drop n cs) arg))
         | [] \<Rightarrow> Inl (ValueError FormatString))
      else if c = CHR ''}'' then
        (case cs of
           d # ds \<Rightarrow>
             if d = CHR ''}'' then map_sum id ((#) CHR ''}'') (str_format fld st ds arg)
             else Inl (ValueError FormatString)
         | [] \<Rightarrow> Inl (ValueError FormatString))
      else map_sum id ((#) c) (str_format fld st cs arg))"
  by pat_completeness auto
termination
  by (relation "measure (\<lambda>(fld, st, s, arg). length s)") auto

text \<open>Decimal rendering of an integer, as \<^verbatim>\<open>str\<close> does.\<close>

definition digit_char :: "nat \<Rightarrow> char" where
  "digit_char d = ''0123456789'' ! d"

fun str_nat :: "nat \<Rightarrow> string" where
  "str_nat n = (if n < 10 then [digit_char n] else str_nat (n div 10) @ [digit_char (n mod 10)])"

declare str_nat.simps [simp del]

definition str_int :: "int \<Rightarrow> string" where
  "str_int i = (if i < 0 then CHR ''-'' # str_nat (nat (- i)) else str_nat (nat i))"

text \<open>
  A renderer for the two plain fields \<^verbatim>\<open>{}\<close> and \<^verbatim>\<open>{0}\<close> with one positional argument.
  The state is the field numbering: an automatic field after a manual one (or the
  reverse) is an error, and a second automatic field has no argument left. Conversions,
  format specifications, attribute and item access and other argument names are not part
  of this renderer; it reports them as errors.
\<close>

datatype numbering = Unset | Automatic | Manual

definition plain_field :: "numbering field_renderer" where
  "plain_field st cs arg =
     (if CHR ''}'' \<notin> set cs then Inl (ValueError FormatString)
      else let name = takeWhile (\<lambda>c. c \<noteq> CHR ''}'') cs in
        if name = [] then
          (case st of
             Unset \<Rightarrow> Inr (str_int arg, Suc (length name), Automatic)
           | Automatic \<Rightarrow> Inl IndexError
           | Manual \<Rightarrow> Inl (ValueError FormatString))
        else if name = ''0'' then
          (case st of
             Automatic \<Rightarrow> Inl (ValueError FormatString)
           | _ \<Rightarrow> Inr (str_int arg, Suc (length name), Manual))
        else Inl (ValueError FormatString))"

section \<open>The tile fetcher\<close>

text \<open>
  The remote side is a function from the requested URL to what comes back: a response
  with its status and body, a connection failure, or a timeout.
  \<^verbatim>\<open>urllib.request.urlopen\<close> raises \<^verbatim>\<open>HTTPError\<close> for a final status outside 200..299.
  \<^verbatim>\<open>aiohttp\<close>'s \<^verbatim>\<open>session.get\<close> is called without \<^verbatim>\<open>raise_for_status\<close>, so
  \<^verbatim>\<open>response.read()\<close> returns the body whatever the status is.
\<close>

datatype http_outcome = Response nat bytes | ConnectionFailed | TimedOut

definition fetch_tile_threaded :: "(string \<Rightarrow> http_outcome) \<Rightarrow> string \<Rightarrow> py_error + bytes" where
  "fetch_tile_threaded server url =
     (case server url of
        Response status body \<Rightarrow>
          if 200 \<le> status \<and> status < 300 then Inr body else Inl (HTTPError status)
      | ConnectionFailed \<Rightarrow> Inl URLError
      | TimedOut \<Rightarrow> Inl TimeoutError)"

definition fetch_tile_threaded_aiohttp ::
  "(string \<Rightarrow> http_outcome) \<Rightarrow> string \<Rightarrow> py_error + bytes" where
  "fetch_tile_threaded_aiohttp server url =
     (case server url of
        Response status body \<Rightarrow> Inr body
      | ConnectionFailed \<Rightarrow> Inl ClientConnectionError
      | TimedOut \<Rightarrow> Inl TimeoutError)"

text \<open>
  The survey collaborator, as far as the fetcher uses it: its frame and its URL builder.
\<close>

record HipsSurveyProperties =
  astropy_frame :: string
  tile_url :: "HipsTileMeta \<Rightarrow> string"

record HipsTileFetcher =
  tile_indices :: "int list"
  hips_order :: int
  hips_survey :: HipsSurveyProperties
  tile_format :: string
  progress_bar :: bool
  thread_count :: int

definition tile_metas :: "HipsTileFetcher \<Rightarrow> HipsTileMeta list" where
  "tile_metas f =
     map (\<lambda>healpix_pixel_index.
            \<lparr>order = hips_order f, ipix = healpix_pixel_index, file_format = tile_format f,
             frame = astropy_frame (hips_survey f), width = None\<rparr>)
         (tile_indices f)"

definition tile_urls :: "HipsTileFetcher \<Rightarrow> string list" where
  "tile_urls f = map (tile_url (hips_survey f)) (tile_metas f)"

text \<open>
  A future is the request it was submitted with and the outcome it ends with; the
  dictionary \<^verbatim>\<open>future_to_url\<close> is the list of these futures (the loop looks the URL of
  each completed future up and does not use it). Futures are submitted in list order;
  \<open>sched\<close> is the order in which they complete, given as positions in the submission
  list, and is a permutation of these positions (\<open>is_completion_order\<close>).
  \<^verbatim>\<open>as_completed\<close> yields the futures in that order, \<^verbatim>\<open>tqdm\<close> passes the items of the
  iterator it wraps through unchanged, and \<^verbatim>\<open>future.result()\<close> re-raises the exception
  of a failed fetch. A pool of no workers is refused with \<^verbatim>\<open>ValueError\<close>.
\<close>

record future =
  fut_url :: string
  fut_result :: "py_error + bytes"

definition is_completion_order :: "nat \<Rightarrow> nat list \<Rightarrow> bool" where
  "is_completion_order n sched = (distinct sched \<and> set sched = {0..<n})"

definition as_completed :: "'f list \<Rightarrow> nat list \<Rightarrow> 'f list" where
  "as_completed fs sched = map (\<lambda>k. fs ! k) sched"

definition tqdm :: "'f list \<Rightarrow> 'f list" where
  "tqdm requests = requests"

definition assemble :: "HipsTileMeta list \<Rightarrow> bytes list \<Rightarrow> bytes HipsTile list" where
  "assemble metas raw_responses =
     map (\<lambda>(idx, raw). \<lparr>meta = metas ! idx, raw_data = raw\<rparr>) (enumerate 0 raw_responses)"

definition submitted :: "HipsTileFetcher \<Rightarrow> (string \<Rightarrow> http_outcome) \<Rightarrow> future list" where
  "submitted f server =
     map (\<lambda>url. \<lparr>fut_url = url, fut_result = fetch_tile_threaded server url\<rparr>) (tile_urls f)"

definition tiles ::
  "HipsTileFetcher \<Rightarrow> (string \<Rightarrow> http_outcome) \<Rightarrow> nat list \<Rightarrow> py_error + bytes HipsTile list" where
  "tiles f server sched =
     (if thread_count f \<le> 0 then Inl (ValueError MaxWorkersNotPositive)
      else
        let future_to_url = submitted f server;
            requests = (if progress_bar f then tqdm (as_completed future_to_url sched)
                        else as_completed future_to_url sched)
        in case mapM fut_result requests of
             Inl e \<Rightarrow> Inl e
           | Inr raw_responses \<Rightarrow> Inr (assemble (tile_metas f) raw_responses))"

text \<open>
  The cooperative variant. \<^verbatim>\<open>asyncio.gather\<close> returns the results in the order of its
  arguments and propagates the first exception raised; \<^verbatim>\<open>asyncio.as_completed\<close> yields
  in completion order. The method \<^verbatim>\<open>url.format\<close> is the parameter \<open>format\<close>.
\<close>

definition scheduled ::
  "(string \<Rightarrow> int \<Rightarrow> py_error + string) \<Rightarrow> HipsTileFetcher \<Rightarrow> (string \<Rightarrow> http_outcome)
     \<Rightarrow> py_error + future list" where
  "scheduled format f server =
     mapM (\<lambda>(idx, url).
             case format url (int idx) of
               Inl e \<Rightarrow> Inl e
             | Inr u \<Rightarrow> Inr \<lparr>fut_url = u, fut_result = fetch_tile_threaded_aiohttp server u\<rparr>)
          (enumerate 0 (tile_urls f))"

definition gather :: "future list \<Rightarrow> nat list \<Rightarrow> py_error + bytes list" where
  "gather tasks sched =
     (case mapM fut_result (as_completed tasks sched) of
        Inl e \<Rightarrow> Inl e
      | Inr _ \<Rightarrow> mapM fut_result tasks)"

definition fetch_tiles_aiohttp ::
  "(string \<Rightarrow> int \<Rightarrow> py_error + string) \<Rightarrow> HipsTileFetcher \<Rightarrow> (string \<Rightarrow> http_outcome) \<Rightarrow> nat list
     \<Rightarrow> py_error + bytes HipsTile list" where
  "fetch_tiles_aiohttp format f server sched =
     (case scheduled format f server of
        Inl e \<Rightarrow> Inl e
      | Inr tasks \<Rightarrow>
          (case (if progress_bar f then mapM fut_result (tqdm (as_completed tasks sched))
                 else gather tasks sched) of
             Inl e \<Rightarrow> Inl e
           | Inr raw_responses \<Rightarrow> Inr (assemble (tile_metas f) raw_responses)))"

definition tiles_aiohttp ::
  "(string \<Rightarrow> int \<Rightarrow> py_error + string) \<Rightarrow> HipsTileFetcher \<Rightarrow> (string \<Rightarrow> http_outcome) \<Rightarrow> nat list
     \<Rightarrow> py_error + bytes HipsTile list" where
  "tiles_aiohttp format f server sched = fetch_tiles_aiohttp format f server sched"

section \<open>Notions used in the statements\<close>

text \<open>
  The specification sorts the extractor's rejections into shape errors (the rank or shape
  of the array does not fit the declared format) and unsupported-format errors.
\<close>

fun ShapeError :: "py_error \<Rightarrow> bool" where
  "ShapeError (ValueError (InvalidNdim n)) = True"
| "ShapeError (ValueError (InvalidShapeRGB s)) = True"
| "ShapeError (ValueError (InvalidShapeRGBA s)) = True"
| "ShapeError e = False"

fun UnsupportedFormatError :: "py_error \<Rightarrow> bool" where
  "UnsupportedFormatError (ValueError (InvalidFileFormat s)) = True"
| "UnsupportedFormatError e = False"

text \<open>
  Undoing the extraction: the quarter turn back (clockwise, \<^verbatim>\<open>np.rot90(m, -1)\<close>), and
  the scatter that stores the value at each cell of the tile under the absolute pixel
  index of that cell.
\<close>

definition rot270 :: "'p list list \<Rightarrow> 'p list list" where
  "rot270 m =
     map (\<lambda>a. map (\<lambda>b. m ! (length m - 1 - b) ! a) [0..<length m]) [0..<ncols m]"

definition scatter :: "int list list \<Rightarrow> 'p list list \<Rightarrow> (int \<rightharpoonup> 'p)" where
  "scatter ipix_abs vals = map_of (zip (concat ipix_abs) (concat vals))"

text \<open>What the converter does for one tile: it creates the parent directory and writes the tile.\<close>

definition tile_events ::
  "path \<Rightarrow> (HipsTileMeta \<Rightarrow> path) \<Rightarrow> 'd HipsTile \<Rightarrow> 'd fs_event list" where
  "tile_events base_path tile_default_path t =
     [Mkdir (parent (base_path @ tile_default_path (meta t))),
      WriteTile (base_path @ tile_default_path (meta t)) t]"

text \<open>
  The helper's contract: for tile width \<open>w\<close> it returns \<open>w\<close> rows of \<open>w\<close> offsets, and the
  offsets are exactly \<open>0 .. w\<^sup>2 - 1\<close>.
\<close>

definition nested_permutation :: "int \<Rightarrow> int list list \<Rightarrow> bool" where
  "nested_permutation w h =
     (length h = nat w \<and> list_all (\<lambda>row. length row = nat w) h
      \<and> set (concat h) = {0..<w ^ 2})"

text \<open>Which shapes the three formats accept.\<close>

definition valid_shape :: "string \<Rightarrow> 'a ndarray \<Rightarrow> bool" where
  "valid_shape fmt a =
     (fmt = ''fits'' \<and> ndim a = 1
      \<or> fmt = ''jpg'' \<and> ndim a = 2 \<and> shape a ! 1 = 3
      \<or> fmt = ''png'' \<and> ndim a = 2 \<and> shape a ! 1 = 4)"

text \<open>
  The buffer that validation and gather return when the shape is valid and every index
  is in range.
\<close>

definition gathered :: "string \<Rightarrow> 'a ndarray \<Rightarrow> int list list \<Rightarrow> 'a pixbuf" where
  "gathered fmt a idx =
     (if fmt = ''fits'' then Gray (map (map (\<lambda>x. flat a ! nat x)) idx)
      else Color (map (map (\<lambda>x. np_row (shape a ! 1) (flat a) (nat x))) idx))"

text \<open>
  The result the specification describes for the thread-pool strategy: the tile at
  position \<open>k\<close> carries the meta of the \<open>k\<close>-th index and the payload fetched from that
  meta's URL.
\<close>

definition tiles_in_submission_order ::
  "HipsTileFetcher \<Rightarrow> (string \<Rightarrow> http_outcome) \<Rightarrow> py_error + bytes HipsTile list" where
  "tiles_in_submission_order f server =
     mapM (\<lambda>m. map_sum id (\<lambda>body. \<lparr>meta = m, raw_data = body\<rparr>)
                  (fetch_tile_threaded server (tile_url (hips_survey f) m)))
          (tile_metas f)"

definition brace_free :: "string \<Rightarrow> bool" where
  "brace_free u = (CHR ''{'' \<notin> set u \<and> CHR ''}'' \<notin> set u)"

section \<open>Example data\<close>

text \<open>A nested (Z-order) numbering of the cells of a tile, used as the helper in examples.\<close>

fun zorder :: "nat \<Rightarrow> int list list" where
  "zorder 0 = [[0]]"
| "zorder (Suc s) =
     (let a = zorder s;
          quadrant = (\<lambda>d. map (map (\<lambda>p. p + d * 4 ^ s)) a)
      in map2 (@) (quadrant 0) (quadrant 1) @ map2 (@) (quadrant 2) (quadrant 3))"

definition example_helper :: "nat \<Rightarrow> py_error + int list list" where
  "example_helper shift_order = Inr (zorder shift_order)"

definition sky48 :: "int ndarray" where
  "sky48 = \<lparr>shape = [48], flat = map (\<lambda>k. 100 + int k) [0..<48]\<rparr>"

definition sky49 :: "int ndarray" where
  "sky49 = \<lparr>shape = [49], flat = map (\<lambda>k. 100 + int k) [0..<49]\<rparr>"

definition sky12 :: "int ndarray" where
  "sky12 = \<lparr>shape = [12], flat = map (\<lambda>k. 100 + int k) [0..<12]\<rparr>"

definition example_path :: "HipsTileMeta \<Rightarrow> path" where
  "example_path m =
     [''Norder'' @ str_int (order m), ''Dir0'', ''Npix'' @ str_int (ipix m) @ ''.'' @ file_format m]"

definition example_survey :: HipsSurveyProperties where
  "example_survey =
     \<lparr>astropy_frame = ''icrs'',
      tile_url = (\<lambda>m. ''http://example.org/Npix'' @ str_int (ipix m) @ ''.'' @ file_format m)\<rparr>"

definition template_survey :: HipsSurveyProperties where
  "template_survey =
     \<lparr>astropy_frame = ''icrs'',
      tile_url = (\<lambda>m. ''http://example.org/{0}/Npix'' @ str_int (ipix m) @ ''.'' @ file_format m)\<rparr>"

definition example_fetcher :: "HipsSurveyProperties \<Rightarrow> bool \<Rightarrow> HipsTileFetcher" where
  "example_fetcher survey pb =
     \<lparr>tile_indices = [0, 1, 2], hips_order = 3, hips_survey = survey,
      tile_format = ''fits'', progress_bar = pb, thread_count = 2\<rparr>"

definition example_server :: "string \<Rightarrow> http_outcome" where
  "example_server url =
     (if url = ''http://example.org/Npix0.fits'' then Response 200 ''A''
      else if url = ''http://example.org/Npix1.fits'' then Response 200 ''B''
      else if url = ''http://example.org/Npix2.fits'' then Response 200 ''C''
      else Response 404 ''not found'')"

definition missing_tile_server :: "string \<Rightarrow> http_outcome" where
  "missing_tile_server url =
     (if url = ''http://example.org/Npix0.fits'' then Response 200 ''A''
      else if url = ''http://example.org/Npix2.fits'' then Response 200 ''C''
      else Response 404 ''not found'')"

section \<open>Auxiliary facts\<close>

lemma mapM_all_Inr:
  "(\<And>x. x \<in> set xs \<Longrightarrow> f x = Inr (g x)) \<Longrightarrow> mapM f xs = Inr (map g xs)"
  by (induction xs) auto

lemma mapM_Inr_iff:
  "mapM f xs = Inr ys \<longleftrightarrow> list_all2 (\<lambda>x y. f x = Inr y) xs ys"
proof (induction xs arbitrary: ys)
  case Nil
  then show ?case by auto
next
  case (Cons x xs)
  from Cons.IH have IH: "\<And>zs. list_all2 (\<lambda>x y. f x = Inr y) xs zs \<longleftrightarrow> mapM f xs = Inr zs"
    by simp
  show ?case
    by (cases ys) (auto simp: IH split: sum.splits)
qed

lemma mapM_Inl_if_member:
  "x \<in> set xs \<Longrightarrow> f x = Inl e \<Longrightarrow> \<exists>e'. mapM f xs = Inl e'"
  by (induction xs) (auto split: sum.splits)

lemma floor_log2_power [simp]: "floor_log2 (2 ^ k) = k"
proof (induction k)
  case 0
  show ?case by (simp add: floor_log2.simps)
next
  case (Suc k)
  have "\<not> (2::nat) ^ Suc k < 2" by simp
  then show ?case using Suc by (subst floor_log2.simps) simp
qed

lemma find_square_root:
  "find (\<lambda>r. r * r = m * m) [0..<Suc (m * m)] = Some (m::nat)"
proof -
  have m: "m < Suc (m * m)" by (cases m) auto
  have "j * j \<noteq> m * m" if "j < m" for j
  proof -
    have "j * j \<le> j * m" using that by simp
    also have "j * m < m * m" using that by simp
    finally show ?thesis by simp
  qed
  then have "\<forall>j<m. j * j \<noteq> m * m" by blast
  with m show ?thesis
    unfolding find_Some_iff
    by (intro exI[of _ m]) (auto simp del: upt_Suc)
qed

lemma npix2nside_twelve_squares: "npix2nside (12 * (m * m)) = Inr m"
  by (simp add: npix2nside_def find_square_root del: upt_Suc)



section \<open>The extractor rejects bad shapes and unknown formats\<close>

lemma extractor_gather_failure:
  assumes "0 < tile_width" and "helper (floor_log2 (nat tile_width)) = Inr h"
    and "shape_check_gather a (absolute_ipix h tile_width i) fmt = Inl e"
  shows "healpix_to_hips_tile helper a tile_width i fmt frm = Inl e"
  using assms by (simp add: healpix_to_hips_tile_def int_log2_def)


lemma zorder_1: "zorder (Suc 0) = [[0, 1], [2, 3]]"
  by simp

lemma floor_log2_2: "floor_log2 2 = 1"
  using floor_log2_power [of 1] by simp


section \<open>The gather stays inside the array\<close>

lemma absolute_ipix_concat:
  "concat (absolute_ipix h w i) = map (\<lambda>p. p + i * w ^ 2) (concat h)"
  by (simp add: absolute_ipix_def map_concat)

lemma tile_block_upper:
  fixes i w :: int and n :: nat
  assumes "0 \<le> i" "i < int n div w ^ 2"
  shows "(i + 1) * w ^ 2 \<le> int n"
proof -
  have pos: "0 < w ^ 2"
  proof (rule ccontr)
    assume "\<not> 0 < w ^ 2"
    then have "w ^ 2 = 0" using zero_le_power2 [of w] by linarith
    with assms show False by simp
  qed
  have "i + 1 \<le> int n div w ^ 2" using assms by simp
  then have "(i + 1) * w ^ 2 \<le> (int n div w ^ 2) * w ^ 2"
    using pos by (simp add: mult_right_mono)
  also have "\<dots> \<le> int n"
    using pos by (metis div_mult_mod_eq add.commute le_add_same_cancel1 pos_mod_sign add.right_neutral add_le_cancel_left)
  finally show ?thesis .
qed

lemma absolute_ipix_range:
  assumes "set (concat h) = {0..<w ^ 2}"
  shows "set (concat (absolute_ipix h w i)) = {i * w ^ 2..<(i + 1) * w ^ 2}"
proof -
  have "set (concat (absolute_ipix h w i)) = (\<lambda>p. p + i * w ^ 2) ` {0..<w ^ 2}"
    using assms by (simp add: absolute_ipix_concat)
  also have "\<dots> = {i * w ^ 2..<(i + 1) * w ^ 2}"
  proof (intro set_eqI iffI)
    fix x assume "x \<in> (\<lambda>p. p + i * w ^ 2) ` {0..<w ^ 2}"
    then show "x \<in> {i * w ^ 2..<(i + 1) * w ^ 2}" by (auto simp: algebra_simps)
  next
    fix x assume x: "x \<in> {i * w ^ 2..<(i + 1) * w ^ 2}"
    then have "x - i * w ^ 2 \<in> {0..<w ^ 2}" by (auto simp: algebra_simps)
    then have "(x - i * w ^ 2) + i * w ^ 2 \<in> (\<lambda>p. p + i * w ^ 2) ` {0..<w ^ 2}"
      by (rule imageI)
    then show "x \<in> (\<lambda>p. p + i * w ^ 2) ` {0..<w ^ 2}" by simp
  qed
  finally show ?thesis .
qed

lemma np_index_in_range:
  "0 \<le> x \<Longrightarrow> x < int n \<Longrightarrow> np_index n x = Inr (nat x)"
  by (simp add: np_index_def)

lemma gather1_in_range:
  assumes "\<And>x. x \<in> set (concat idx) \<Longrightarrow> 0 \<le> x \<and> x < int n"
  shows "gather1 n xs idx = Inr (map (map (\<lambda>x. xs ! nat x)) idx)"
  unfolding gather1_def
proof (rule mapM_all_Inr)
  fix row assume "row \<in> set idx"
  then have "\<And>x. x \<in> set row \<Longrightarrow> 0 \<le> x \<and> x < int n" using assms by auto
  then show "mapM (\<lambda>i. case np_index n i of Inl e \<Rightarrow> Inl e | Inr k \<Rightarrow> Inr (xs ! k)) row
               = Inr (map (\<lambda>x. xs ! nat x) row)"
    by (intro mapM_all_Inr) (simp add: np_index_in_range)
qed

lemma gather2_in_range:
  assumes "\<And>x. x \<in> set (concat idx) \<Longrightarrow> 0 \<le> x \<and> x < int n"
  shows "gather2 n c xs idx = Inr (map (map (\<lambda>x. np_row c xs (nat x))) idx)"
  unfolding gather2_def
proof (rule mapM_all_Inr)
  fix row assume "row \<in> set idx"
  then have "\<And>x. x \<in> set row \<Longrightarrow> 0 \<le> x \<and> x < int n" using assms by auto
  then show "mapM (\<lambda>i. case np_index n i of Inl e \<Rightarrow> Inl e | Inr k \<Rightarrow> Inr (np_row c xs k)) row
               = Inr (map (\<lambda>x. np_row c xs (nat x)) row)"
    by (intro mapM_all_Inr) (simp add: np_index_in_range)
qed

lemma shape_check_gather_in_range:
  assumes "valid_shape fmt a"
    and "\<And>x. x \<in> set (concat idx) \<Longrightarrow> 0 \<le> x \<and> x < int (shape a ! 0)"
  shows "shape_check_gather a idx fmt = Inr (gathered fmt a idx)"
proof -
  have g1: "gather1 (shape a ! 0) (flat a) idx = Inr (map (map (\<lambda>x. flat a ! nat x)) idx)"
    by (rule gather1_in_range) (rule assms(2))
  have g2: "gather2 (shape a ! 0) c (flat a) idx
              = Inr (map (map (\<lambda>x. np_row c (flat a) (nat x))) idx)" for c
    by (rule gather2_in_range) (rule assms(2))
  from assms(1) show ?thesis
    unfolding valid_shape_def shape_check_gather_def gathered_def
    by (elim disjE conjE) (simp_all add: g1 g2)
qed

text \<open>
  Claim C9. If the helper returns exactly the offsets \<open>0 .. w\<^sup>2 - 1\<close>, the length of the
  array is a multiple of \<open>w\<^sup>2\<close> and the tile index is at least 0 and below the number of
  tiles, then every absolute gather index is at least 0 and below the length of the array,
  and the validation and gather step of the extractor returns a buffer (no
  \<^verbatim>\<open>IndexError\<close>) on an array whose shape fits the format.
\<close>

theorem gather_indices_in_bounds:
  assumes "set (concat h) = {0..<tile_width ^ 2}"
    and "int (shape a ! 0) mod tile_width ^ 2 = 0"
    and "0 \<le> tile_idx" and "tile_idx < int (shape a ! 0) div tile_width ^ 2"
    and "valid_shape fmt a"
  shows "(\<forall>x \<in> set (concat (absolute_ipix h tile_width tile_idx)). 0 \<le> x \<and> x < int (shape a ! 0))
       \<and> (\<exists>buf. shape_check_gather a (absolute_ipix h tile_width tile_idx) fmt = Inr buf)"
proof -
  have upper: "(tile_idx + 1) * tile_width ^ 2 \<le> int (shape a ! 0)"
    using assms(3,4) by (rule tile_block_upper)
  have lower: "0 \<le> tile_idx * tile_width ^ 2"
    using assms(3) by simp
  have bounds: "0 \<le> x \<and> x < int (shape a ! 0)"
    if "x \<in> set (concat (absolute_ipix h tile_width tile_idx))" for x
    using that upper lower unfolding absolute_ipix_range [OF assms(1)] by auto
  from shape_check_gather_in_range [OF assms(5) bounds] bounds show ?thesis by blast
qed


lemma zorder_1_set: "set (concat [[0, 1], [2, 3]]) = {0..<(2::int) ^ 2}"
  by auto

theorem gather_indices_in_bounds_witness:
  "set (concat (zorder 1)) = {0..<(2::int) ^ 2}
   \<and> int (shape sky48 ! 0) mod 2 ^ 2 = 0
   \<and> (0::int) \<le> 1 \<and> 1 < int (shape sky48 ! 0) div 2 ^ 2
   \<and> valid_shape ''fits'' sky48
   \<and> list_all (\<lambda>x. 0 \<le> x \<and> x < int (shape sky48 ! 0))
        (concat (absolute_ipix (zorder 1) 2 1))
   \<and> (\<exists>buf. shape_check_gather sky48 (absolute_ipix (zorder 1) 2 1) ''fits'' = Inr buf)"
proof -
  have p: "set (concat (zorder 1)) = {0..<(2::int) ^ 2}"
    using zorder_1_set by (simp add: zorder_1)
  have m: "int (shape sky48 ! 0) mod 2 ^ 2 = 0" by (simp add: sky48_def)
  have l: "(0::int) \<le> 1" by simp
  have u: "1 < int (shape sky48 ! 0) div 2 ^ 2" by (simp add: sky48_def)
  have v: "valid_shape ''fits'' sky48" by (simp add: valid_shape_def sky48_def ndim_def)
  from gather_indices_in_bounds [OF p m l u v] p m l u v show ?thesis
    unfolding list_all_iff by blast
qed

section \<open>When the extractor returns\<close>

lemma block_indices_in_range:
  assumes "set (concat h) = {0..<w ^ 2}" and "0 \<le> i" and "i < int n div w ^ 2"
    and "x \<in> set (concat (absolute_ipix h w i))"
  shows "0 \<le> x \<and> x < int n"
proof -
  have upper: "(i + 1) * w ^ 2 \<le> int n"
    using assms(2,3) by (rule tile_block_upper)
  have lower: "0 \<le> i * w ^ 2"
    using assms(2) by simp
  from assms(4) upper lower show ?thesis
    unfolding absolute_ipix_range [OF assms(1)] by auto
qed

lemma source_order_twelve_squares:
  assumes "shape a ! 0 div nat (w ^ 2) = 12 * (m * m)" and "0 < m"
  shows "source_order a w = Inr (floor_log2 m)"
  using assms by (simp add: source_order_def npix2nside_twelve_squares int_log2_def)

lemma extractor_returns:
  assumes "0 < w" and "helper (floor_log2 (nat w)) = Inr h"
    and "set (concat h) = {0..<w ^ 2}" and "valid_shape fmt a"
    and "0 \<le> i" and "i < int (shape a ! 0) div w ^ 2"
    and "source_order a w = Inr k"
  shows "healpix_to_hips_tile helper a w i fmt frm
           = Inr (from_numpy
                    \<lparr>order = int k, ipix = i, file_format = fmt, frame = frm, width = Some w\<rparr>
                    (rot90_buf (gathered fmt a (absolute_ipix h w i))))"
proof -
  have bounds: "0 \<le> x \<and> x < int (shape a ! 0)"
    if "x \<in> set (concat (absolute_ipix h w i))" for x
    using assms(3,5,6) that by (rule block_indices_in_range)
  have "shape_check_gather a (absolute_ipix h w i) fmt = Inr (gathered fmt a (absolute_ipix h w i))"
    using assms(4) bounds by (rule shape_check_gather_in_range)
  with assms(1,2,7) show ?thesis
    by (simp add: healpix_to_hips_tile_def int_log2_def)
qed

section \<open>The order stored in the meta\<close>

lemma source_order_value:
  assumes "0 < w" and "shape a ! 0 = 12 * 4 ^ k * nat w ^ 2"
  shows "source_order a w = Inr k"
proof -
  have W: "nat (w ^ 2) = nat w ^ 2" using assms(1) by (simp add: nat_power_eq)
  have pos: "0 < nat w ^ 2" using assms(1) by simp
  have four: "(4::nat) ^ k = 2 ^ k * 2 ^ k"
    by (simp add: power_mult_distrib [symmetric])
  have q: "shape a ! 0 div nat (w ^ 2) = 12 * (2 ^ k * 2 ^ k)"
    unfolding W assms(2) four using pos by simp
  have pos2: "int (2 ^ k) \<noteq> 0" "\<not> int (2 ^ k) < 0" by simp_all
  show ?thesis
    unfolding source_order_def Let_def q npix2nside_twelve_squares
    using pos2 by (simp add: int_log2_def del: of_nat_power)
qed

lemma log2_sqrt_four_power: "log 2 (sqrt (4 ^ k)) = real k"
proof -
  have "sqrt ((4::real) ^ k) = sqrt 4 ^ k"
    by (rule real_sqrt_power)
  then have "sqrt ((4::real) ^ k) = 2 ^ k"
    by simp
  then show ?thesis by simp
qed


lemma log2_sqrt_twelve: "log 2 (sqrt 12) \<noteq> 0"
proof -
  have "1 < sqrt (12::real)" by simp
  then have "0 < log 2 (sqrt 12)" by simp
  then show ?thesis by (rule less_imp_neq [symmetric])
qed



section \<open>Round trip of the extraction\<close>

lemma ncols_rows:
  assumes "m \<noteq> []" and "\<forall>row \<in> set m. length row = c"
  shows "ncols m = c"
  using assms by (cases m) (auto simp: ncols_def)

lemma rot270_rot90:
  assumes "m \<noteq> []" and "\<forall>row \<in> set m. length row = c" and "0 < c"
  shows "rot270 (rot90 m) = m"
proof -
  have nc: "ncols m = c" using assms(1,2) by (rule ncols_rows)
  have len: "length (rot90 m) = c" by (simp add: rot90_def nc)
  have ne: "rot90 m \<noteq> []" using len assms(3) by auto
  have "\<forall>row \<in> set (rot90 m). length row = length m"
    by (auto simp: rot90_def)
  with ne have nc': "ncols (rot90 m) = length m" by (rule ncols_rows)
  have entry: "rot90 m ! (c - Suc b) ! a = m ! a ! b" if "a < length m" "b < c" for a b
    using that by (simp add: rot90_def nc)
  have "rot270 (rot90 m) = map (\<lambda>a. map (\<lambda>b. m ! a ! b) [0..<c]) [0..<length m]"
    unfolding rot270_def nc' len by (simp add: entry)
  also have "\<dots> = m"
  proof (rule nth_equalityI)
    show "length (map (\<lambda>a. map (\<lambda>b. m ! a ! b) [0..<c]) [0..<length m]) = length m" by simp
  next
    fix a assume "a < length (map (\<lambda>a. map (\<lambda>b. m ! a ! b) [0..<c]) [0..<length m])"
    then have a: "a < length m" by simp
    then have "length (m ! a) = c" using assms(2) by simp
    then have "map (\<lambda>b. m ! a ! b) [0..<c] = m ! a"
      by (metis map_nth)
    with a show "map (\<lambda>a. map (\<lambda>b. m ! a ! b) [0..<c]) [0..<length m] ! a = m ! a" by simp
  qed
  finally show ?thesis .
qed

lemma scatter_map_map:
  "scatter idx (map (map f) idx) = (\<lambda>x. if x \<in> set (concat idx) then Some (f x) else None)"
  by (simp add: scatter_def map_concat [symmetric] map_of_zip_map)

lemma absolute_ipix_shape:
  "length (absolute_ipix h w i) = length h"
  "\<forall>row \<in> set h. length row = c \<Longrightarrow> \<forall>row \<in> set (absolute_ipix h w i). length row = c"
  by (auto simp: absolute_ipix_def)

lemma floor_log2_nat_power: "floor_log2 (nat (2 ^ s)) = s"
  by (simp add: nat_power_eq)

lemma round_trip_map:
  assumes "idx \<noteq> []" and "\<forall>row \<in> set idx. length row = c" and "0 < c"
  shows "scatter idx (rot270 (rot90 (map (map f) idx)))
           = (\<lambda>x. if x \<in> set (concat idx) then Some (f x) else None)"
proof -
  have "map (map f) idx \<noteq> []" using assms(1) by simp
  moreover have "\<forall>row \<in> set (map (map f) idx). length row = c" using assms(2) by auto
  ultimately have "rot270 (rot90 (map (map f) idx)) = map (map f) idx"
    using assms(3) by (rule rot270_rot90)
  then show ?thesis by (simp add: scatter_map_map)
qed

text \<open>
  Claim C6, as amended. Let the tile width be a power of two, the helper return a nested
  permutation for it, the array have the shape its format asks for and a length that is
  a multiple of \<open>w\<^sup>2\<close>, with the quotient \<open>len / w\<^sup>2\<close> twelve times a square, and the tile
  index be at least 0 and below the number of tiles. Then the extractor returns a tile,
  and turning its buffer back by a quarter turn and scattering it through the absolute
  pixel indices gives exactly the pixels of the array at the indices
  \<open>i * w\<^sup>2 .. (i + 1) * w\<^sup>2 - 1\<close>, and nothing outside them.
\<close>

theorem extract_round_trip:
  assumes "tile_width = 2 ^ s"
    and "helper s = Inr h" and "nested_permutation tile_width h"
    and "wf_ndarray a" and "valid_shape fmt a"
    and "int (shape a ! 0) mod tile_width ^ 2 = 0"
    and "0 \<le> tile_idx" and "tile_idx < int (shape a ! 0) div tile_width ^ 2"
    and "shape a ! 0 div nat (tile_width ^ 2) = 12 * (m * m)"
  shows "\<exists>t. healpix_to_hips_tile helper a tile_width tile_idx fmt frm = Inr t
         \<and> (case raw_data t of
              Gray buf \<Rightarrow>
                scatter (absolute_ipix h tile_width tile_idx) (rot270 buf)
                  = (\<lambda>x. if x \<in> {tile_idx * tile_width ^ 2..<(tile_idx + 1) * tile_width ^ 2}
                          then Some (flat a ! nat x) else None)
            | Color buf \<Rightarrow>
                scatter (absolute_ipix h tile_width tile_idx) (rot270 buf)
                  = (\<lambda>x. if x \<in> {tile_idx * tile_width ^ 2..<(tile_idx + 1) * tile_width ^ 2}
                          then Some (np_row (shape a ! 1) (flat a) (nat x)) else None))"
proof -
  let ?idx = "absolute_ipix h tile_width tile_idx"
  have w: "0 < tile_width" using assms(1) by simp
  have hs: "helper (floor_log2 (nat tile_width)) = Inr h"
    using assms(2) by (simp add: assms(1) floor_log2_nat_power)
  have perm: "set (concat h) = {0..<tile_width ^ 2}"
    and rows: "length h = nat tile_width" "\<forall>row \<in> set h. length row = nat tile_width"
    using assms(3) by (auto simp: nested_permutation_def list_all_iff)
  have "int (nat (tile_width ^ 2)) = tile_width ^ 2" by simp
  then have "int (shape a ! 0 div nat (tile_width ^ 2)) = int (shape a ! 0) div tile_width ^ 2"
    by (simp only: zdiv_int)
  then have "0 < shape a ! 0 div nat (tile_width ^ 2)"
    using assms(7,8) by linarith
  then have m: "0 < m" unfolding assms(9) by simp
  have so: "source_order a tile_width = Inr (floor_log2 m)"
    using assms(9) m by (rule source_order_twelve_squares)
  have ne: "?idx \<noteq> []"
    using rows(1) w absolute_ipix_shape(1) [of h tile_width tile_idx] by auto
  have len: "\<forall>row \<in> set ?idx. length row = nat tile_width"
    using rows(2) by (rule absolute_ipix_shape(2))
  have c: "0 < nat tile_width" using w by simp
  have range: "set (concat ?idx) = {tile_idx * tile_width ^ 2..<(tile_idx + 1) * tile_width ^ 2}"
    using perm by (rule absolute_ipix_range)
  have rt: "scatter ?idx (rot270 (rot90 (map (map f) ?idx)))
              = (\<lambda>x. if x \<in> {tile_idx * tile_width ^ 2..<(tile_idx + 1) * tile_width ^ 2}
                      then Some (f x) else None)" for f :: "int \<Rightarrow> 'c"
    unfolding round_trip_map [OF ne len c] range ..
  have buf: "(case rot90_buf (gathered fmt a ?idx) of
              Gray buf \<Rightarrow>
                scatter ?idx (rot270 buf)
                  = (\<lambda>x. if x \<in> {tile_idx * tile_width ^ 2..<(tile_idx + 1) * tile_width ^ 2}
                          then Some (flat a ! nat x) else None)
            | Color buf \<Rightarrow>
                scatter ?idx (rot270 buf)
                  = (\<lambda>x. if x \<in> {tile_idx * tile_width ^ 2..<(tile_idx + 1) * tile_width ^ 2}
                          then Some (np_row (shape a ! 1) (flat a) (nat x)) else None))"
  proof (cases "fmt = ''fits''")
    case True
    then have "gathered fmt a ?idx = Gray (map (map (\<lambda>x. flat a ! nat x)) ?idx)"
      by (simp add: gathered_def)
    then show ?thesis by (simp only: rot90_buf.simps pixbuf.case rt)
  next
    case False
    then have "gathered fmt a ?idx
                 = Color (map (map (\<lambda>x. np_row (shape a ! 1) (flat a) (nat x))) ?idx)"
      by (simp add: gathered_def)
    then show ?thesis by (simp only: rot90_buf.simps pixbuf.case rt)
  qed
  show ?thesis
    unfolding extractor_returns [where helper = helper and h = h,
        OF w hs perm assms(5) assms(7) assms(8) so]
    using buf by (simp add: from_numpy_def)
qed

text \<open>
  Claim C6 as stated asks less of the length: a full-sky array of twelve pixels (side 1)
  and tile width 2 meet every condition it names, three tiles of four pixels each, and
  the extractor raises for tile 0 when it derives the order, since the quotient 3 is not
  a pixel count. No buffer is returned.
\<close>

theorem round_trip_needs_a_pixel_count_quotient:
  "(2::int) = 2 ^ 1 \<and> example_helper 1 = Inr (zorder 1) \<and> nested_permutation 2 (zorder 1)
   \<and> wf_ndarray sky12 \<and> valid_shape ''fits'' sky12
   \<and> shape sky12 ! 0 = 12 * 1 ^ 2
   \<and> int (shape sky12 ! 0) mod 2 ^ 2 = 0
   \<and> (0::int) \<le> 0 \<and> 0 < int (shape sky12 ! 0) div 2 ^ 2
   \<and> healpix_to_hips_tile example_helper sky12 2 0 ''fits'' ''icrs''
       = Inl (ValueError NpixNotDivisibleBy12)"
proof (intro conjI)
  show "nested_permutation 2 (zorder 1)"
    using zorder_1_set by (simp add: nested_permutation_def zorder_1)
  show "healpix_to_hips_tile example_helper sky12 2 0 ''fits'' ''icrs''
       = Inl (ValueError NpixNotDivisibleBy12)"
    by code_simp
qed (simp_all add: example_helper_def wf_ndarray_def valid_shape_def sky12_def ndim_def)

theorem extract_round_trip_witness:
  "(2::int) = 2 ^ 1 \<and> example_helper 1 = Inr (zorder 1) \<and> nested_permutation 2 (zorder 1)
   \<and> wf_ndarray sky48 \<and> valid_shape ''fits'' sky48
   \<and> int (shape sky48 ! 0) mod 2 ^ 2 = 0
   \<and> (0::int) \<le> 1 \<and> 1 < int (shape sky48 ! 0) div 2 ^ 2
   \<and> shape sky48 ! 0 div nat (2 ^ 2) = 12 * (1 * 1)
   \<and> healpix_to_hips_tile example_helper sky48 2 1 ''fits'' ''icrs''
       = Inr \<lparr>meta = \<lparr>order = 0, ipix = 1, file_format = ''fits'', frame = ''icrs'',
                      width = Some 2\<rparr>,
              raw_data = Gray [[105, 107], [104, 106]]\<rparr>
   \<and> scatter (absolute_ipix (zorder 1) 2 1) (rot270 [[105, 107], [104, 106]])
       = (\<lambda>x. if x \<in> {1 * 2 ^ 2..<(1 + 1) * 2 ^ 2} then Some (flat sky48 ! nat x) else None)"
proof -
  have w: "(2::int) = 2 ^ 1" by simp
  have h: "example_helper 1 = Inr (zorder 1)" by (simp add: example_helper_def)
  have p: "nested_permutation 2 (zorder 1)"
    using zorder_1_set by (simp add: nested_permutation_def zorder_1)
  have f: "wf_ndarray sky48" by (simp add: wf_ndarray_def sky48_def)
  have v: "valid_shape ''fits'' sky48" by (simp add: valid_shape_def sky48_def ndim_def)
  have m: "int (shape sky48 ! 0) mod 2 ^ 2 = 0" by (simp add: sky48_def)
  have l: "(0::int) \<le> 1" by simp
  have u: "1 < int (shape sky48 ! 0) div 2 ^ 2" by (simp add: sky48_def)
  have q: "shape sky48 ! 0 div nat (2 ^ 2) = 12 * (1 * 1)" by (simp add: sky48_def)
  have t: "healpix_to_hips_tile example_helper sky48 2 1 ''fits'' ''icrs''
       = Inr \<lparr>meta = \<lparr>order = 0, ipix = 1, file_format = ''fits'', frame = ''icrs'',
                      width = Some 2\<rparr>,
              raw_data = Gray [[105, 107], [104, 106]]\<rparr>"
    by code_simp
  from extract_round_trip [where helper = example_helper and h = "zorder 1" and s = 1
      and frm = "''icrs''", OF w h p f v m l u q]
  have "scatter (absolute_ipix (zorder 1) 2 1) (rot270 [[105, 107], [104, 106]])
       = (\<lambda>x. if x \<in> {1 * 2 ^ 2..<(1 + 1) * 2 ^ 2} then Some (flat sky48 ! nat x) else None)"
    unfolding t by simp
  with w h p f v m l u q t show ?thesis by blast
qed

section \<open>The converter's writes\<close>

lemma write_tiles_trace:
  assumes "mapM (\<lambda>i. healpix_to_hips_tile helper a w (int i) fmt frm) is = Inr ts"
  shows "write_tiles helper tdp a w base fmt frm is fs
           = (fs @ concat (map (tile_events base tdp) ts), None)"
  using assms
proof (induction "is" arbitrary: fs ts)
  case Nil
  then show ?case by simp
next
  case (Cons i "is")
  from Cons.prems obtain t ts' where
    t: "healpix_to_hips_tile helper a w (int i) fmt frm = Inr t"
    and ts': "mapM (\<lambda>i. healpix_to_hips_tile helper a w (int i) fmt frm) is = Inr ts'"
    and ts: "ts = t # ts'"
    by (auto split: sum.splits)
  show ?case
    using Cons.IH [OF ts'] by (simp add: t ts tile_events_def Let_def)
qed



section \<open>The URLs the two strategies request\<close>

lemma str_format_brace_free:
  "brace_free s \<Longrightarrow> str_format fld st s arg = Inr s"
  by (induction s) (auto simp: brace_free_def)

lemma map_sum_Inr_iff:
  "map_sum f g x = Inr y \<longleftrightarrow> (\<exists>z. x = Inr z \<and> y = g z)"
  by (cases x) auto

lemma str_format_no_fixpoint:
  assumes fld_ok: "\<And>st cs arg rtxt n st'. fld st cs arg = Inr (rtxt, n, st') \<Longrightarrow> brace_free rtxt"
  shows "str_format fld st s arg = Inr (pre @ s) \<Longrightarrow> pre = [] \<and> brace_free s"
proof (induction s arbitrary: pre st rule: length_induct)
  case (1 s)
  note IH = "1.IH" [rule_format]
  show ?case
  proof (cases s)
    case Nil
    with "1.prems" show ?thesis by (simp add: brace_free_def)
  next
    case (Cons c cs)
    consider (opn) "c = CHR ''{''" | (cls) "c = CHR ''}''"
      | (lit) "c \<noteq> CHR ''{''" "c \<noteq> CHR ''}''" by blast
    then show ?thesis
    proof cases
      case lit
      from "1.prems" lit obtain out where
        out: "str_format fld st cs arg = Inr out" and eq: "c # out = pre @ c # cs"
        by (auto simp: Cons map_sum_Inr_iff)
      show ?thesis
      proof (cases pre)
        case Nil
        with eq out have "str_format fld st cs arg = Inr ([] @ cs)" by simp
        from IH [OF _ this] have "brace_free cs" by (simp add: Cons)
        with lit Nil show ?thesis by (simp add: Cons brace_free_def)
      next
        case (Cons p ps)
        with eq out have "str_format fld st cs arg = Inr ((ps @ [c]) @ cs)" by simp
        from IH [OF _ this] show ?thesis by (simp add: \<open>s = c # cs\<close>)
      qed
    next
      case opn
      show ?thesis
      proof (cases cs)
        case Nil
        with "1.prems" opn Cons show ?thesis by simp
      next
        case (Cons d ds)
        note cs = Cons
        show ?thesis
        proof (cases "d = CHR ''{''")
          case True
          from "1.prems" opn True obtain out where
            out: "str_format fld st ds arg = Inr out" and eq: "c # out = pre @ c # c # ds"
            by (auto simp: \<open>s = c # cs\<close> cs map_sum_Inr_iff)
          from eq have "out = (tl (pre @ [c]) @ [c]) @ ds"
            by (cases pre) auto
          with out have "str_format fld st ds arg = Inr ((tl (pre @ [c]) @ [c]) @ ds)" by simp
          from IH [OF _ this] show ?thesis by (simp add: \<open>s = c # cs\<close> cs)
        next
          case False
          from "1.prems" opn False obtain rtxt n st2 out where
            fl: "fld st cs arg = Inr (rtxt, n, st2)"
            and out: "str_format fld st2 (drop n cs) arg = Inr out"
            and eq: "rtxt @ out = pre @ c # cs"
            by (auto simp: \<open>s = c # cs\<close> cs map_sum_Inr_iff split: sum.splits)
          from fld_ok [OF fl] have bf: "c \<notin> set rtxt" using opn by (simp add: brace_free_def)
          from eq obtain us where
            "rtxt @ us = pre \<and> out = us @ c # cs \<or> rtxt = pre @ us \<and> us @ out = c # cs"
            by (auto simp: append_eq_append_conv2)
          then obtain vs where vs: "out = vs @ c # cs"
          proof
            assume "rtxt @ us = pre \<and> out = us @ c # cs"
            then show ?thesis using that by blast
          next
            assume a: "rtxt = pre @ us \<and> us @ out = c # cs"
            show ?thesis
            proof (cases us)
              case Nil
              with a have "out = [] @ c # cs" by simp
              then show ?thesis using that by blast
            next
              case (Cons u us')
              with a have "u = c" by simp
              with a Cons bf show ?thesis by simp
            qed
          qed
          have "out = (vs @ c # take n cs) @ drop n cs"
            using vs by simp
          with out have "str_format fld st2 (drop n cs) arg = Inr ((vs @ c # take n cs) @ drop n cs)"
            by simp
          moreover have "length (drop n cs) < length s" by (simp add: \<open>s = c # cs\<close>)
          ultimately show ?thesis using IH by blast
        qed
      qed
    next
      case cls
      show ?thesis
      proof (cases cs)
        case Nil
        with "1.prems" cls Cons show ?thesis by simp
      next
        case (Cons d ds)
        note cs = Cons
        show ?thesis
        proof (cases "d = CHR ''}''")
          case True
          from "1.prems" cls True obtain out where
            out: "str_format fld st ds arg = Inr out" and eq: "c # out = pre @ c # c # ds"
            by (auto simp: \<open>s = c # cs\<close> cs map_sum_Inr_iff)
          from eq have "out = (tl (pre @ [c]) @ [c]) @ ds"
            by (cases pre) auto
          with out have "str_format fld st ds arg = Inr ((tl (pre @ [c]) @ [c]) @ ds)" by simp
          from IH [OF _ this] show ?thesis by (simp add: \<open>s = c # cs\<close> cs)
        next
          case False
          with "1.prems" cls show ?thesis by (simp add: \<open>s = c # cs\<close> cs)
        qed
      qed
    qed
  qed
qed

lemma str_format_identity_iff:
  assumes "\<And>st cs arg rtxt n st'. fld st cs arg = Inr (rtxt, n, st') \<Longrightarrow> brace_free rtxt"
  shows "str_format fld st s arg = Inr s \<longleftrightarrow> brace_free s"
proof
  assume "str_format fld st s arg = Inr s"
  then have "str_format fld st s arg = Inr ([] @ s)" by simp
  from str_format_no_fixpoint [of fld, OF assms this] show "brace_free s" by simp
next
  assume "brace_free s"
  then show "str_format fld st s arg = Inr s" by (rule str_format_brace_free)
qed


lemma submitted_urls: "map fut_url (submitted f server) = tile_urls f"
  by (simp add: submitted_def comp_def)

lemma mapM_task_urls:
  "map_sum id (map fut_url)
     (mapM (\<lambda>x. case h x of
                   Inl e \<Rightarrow> Inl e
                 | Inr u \<Rightarrow> Inr \<lparr>fut_url = u, fut_result = r u\<rparr>) xs)
   = mapM h xs"
  by (induction xs) (auto split: sum.splits)

lemma scheduled_urls:
  "map_sum id (map fut_url) (scheduled format f server)
     = mapM (\<lambda>(idx, url). format url (int idx)) (enumerate 0 (tile_urls f))"
proof -
  have "scheduled format f server
          = mapM (\<lambda>x. case (\<lambda>(idx, url). format url (int idx)) x of
                         Inl e \<Rightarrow> Inl e
                       | Inr u \<Rightarrow> Inr \<lparr>fut_url = u,
                                       fut_result = fetch_tile_threaded_aiohttp server u\<rparr>)
                 (enumerate 0 (tile_urls f))"
    unfolding scheduled_def by (rule arg_cong [where f = "\<lambda>g. mapM g _"]) auto
  then show ?thesis by (simp only: mapM_task_urls)
qed

lemma mapM_enumerate_identity_iff:
  "mapM (\<lambda>(idx, url). g url (int idx)) (enumerate k urls) = Inr urls
     \<longleftrightarrow> (\<forall>i<length urls. g (urls ! i) (int (k + i)) = Inr (urls ! i))"
  by (auto simp: mapM_Inr_iff list_all2_conv_all_nth nth_enumerate_eq)


lemma digit_char_not_brace: "d < 10 \<Longrightarrow> CHR ''{'' \<noteq> digit_char d \<and> CHR ''}'' \<noteq> digit_char d"
proof -
  assume "d < 10"
  then have "d \<in> {0, 1, 2, 3, 4, 5, 6, 7, 8, 9}" by auto
  then show ?thesis by (auto simp: digit_char_def)
qed

lemma str_nat_brace_free: "brace_free (str_nat n)"
proof (induction n rule: str_nat.induct)
  case (1 n)
  show ?case
  proof (cases "n < 10")
    case True
    then show ?thesis
      using digit_char_not_brace [of n] by (subst str_nat.simps) (simp add: brace_free_def)
  next
    case False
    then show ?thesis
      using "1.IH" digit_char_not_brace [of "n mod 10"]
      by (subst str_nat.simps) (simp add: brace_free_def)
  qed
qed

lemma str_int_brace_free: "brace_free (str_int i)"
  using str_nat_brace_free [of "nat i"] str_nat_brace_free [of "nat (- i)"]
  by (simp add: str_int_def brace_free_def)

lemma plain_field_brace_free:
  "plain_field st cs arg = Inr (rtxt, n, st') \<Longrightarrow> brace_free rtxt"
  using str_int_brace_free [of arg]
  by (auto simp: plain_field_def Let_def split: if_splits numbering.splits)


section \<open>The fetcher on concrete runs\<close>

text \<open>
  Claim C1 (the code departs from it). Three tiles, payloads \<open>A\<close>, \<open>B\<close>, \<open>C\<close>, and the
  second fetch completing first. The thread-pool strategy pairs the responses, which it
  collected in completion order, with the metas by position: the tile with the meta of
  index 0 carries payload \<open>B\<close> and the tile with the meta of index 1 carries payload \<open>A\<close>.
  Reassembled in submission order the payloads would be \<open>A\<close>, \<open>B\<close>, \<open>C\<close>.
\<close>

theorem tiles_pairs_metas_with_completion_order:
  "is_completion_order (length (tile_indices (example_fetcher example_survey False))) [1, 0, 2]
   \<and> tiles (example_fetcher example_survey False) example_server [1, 0, 2]
       = Inr [\<lparr>meta = \<lparr>order = 3, ipix = 0, file_format = ''fits'', frame = ''icrs'',
                     width = None\<rparr>, raw_data = ''B''\<rparr>,
            \<lparr>meta = \<lparr>order = 3, ipix = 1, file_format = ''fits'', frame = ''icrs'',
                     width = None\<rparr>, raw_data = ''A''\<rparr>,
            \<lparr>meta = \<lparr>order = 3, ipix = 2, file_format = ''fits'', frame = ''icrs'',
                     width = None\<rparr>, raw_data = ''C''\<rparr>]
   \<and> tiles_in_submission_order (example_fetcher example_survey False) example_server
       = Inr [\<lparr>meta = \<lparr>order = 3, ipix = 0, file_format = ''fits'', frame = ''icrs'',
                     width = None\<rparr>, raw_data = ''A''\<rparr>,
            \<lparr>meta = \<lparr>order = 3, ipix = 1, file_format = ''fits'', frame = ''icrs'',
                     width = None\<rparr>, raw_data = ''B''\<rparr>,
            \<lparr>meta = \<lparr>order = 3, ipix = 2, file_format = ''fits'', frame = ''icrs'',
                     width = None\<rparr>, raw_data = ''C''\<rparr>]"
  by (intro conjI; code_simp)

text \<open>
  Claim C2 (the code departs from it). On the same fetcher, server and completion order
  the two strategies return different sets of tiles: the thread-pool strategy has the
  meta of index 0 with payload \<open>B\<close>, the cooperative strategy (without progress bar) has
  it with payload \<open>A\<close>.
\<close>

theorem strategies_return_different_tile_sets:
  "is_completion_order (length (tile_indices (example_fetcher example_survey False))) [1, 0, 2]
   \<and> tiles (example_fetcher example_survey False) example_server [1, 0, 2]
       = Inr [\<lparr>meta = \<lparr>order = 3, ipix = 0, file_format = ''fits'', frame = ''icrs'',
                     width = None\<rparr>, raw_data = ''B''\<rparr>,
            \<lparr>meta = \<lparr>order = 3, ipix = 1, file_format = ''fits'', frame = ''icrs'',
                     width = None\<rparr>, raw_data = ''A''\<rparr>,
            \<lparr>meta = \<lparr>order = 3, ipix = 2, file_format = ''fits'', frame = ''icrs'',
                     width = None\<rparr>, raw_data = ''C''\<rparr>]
   \<and> tiles_aiohttp (str_format plain_field Unset) (example_fetcher example_survey False) example_server [1, 0, 2]
       = Inr [\<lparr>meta = \<lparr>order = 3, ipix = 0, file_format = ''fits'', frame = ''icrs'',
                     width = None\<rparr>, raw_data = ''A''\<rparr>,
            \<lparr>meta = \<lparr>order = 3, ipix = 1, file_format = ''fits'', frame = ''icrs'',
                     width = None\<rparr>, raw_data = ''B''\<rparr>,
            \<lparr>meta = \<lparr>order = 3, ipix = 2, file_format = ''fits'', frame = ''icrs'',
                     width = None\<rparr>, raw_data = ''C''\<rparr>]
   \<and> set [\<lparr>meta = \<lparr>order = 3, ipix = 0, file_format = ''fits'', frame = ''icrs'',
                     width = None\<rparr>, raw_data = ''B''\<rparr>,
         \<lparr>meta = \<lparr>order = 3, ipix = 1, file_format = ''fits'', frame = ''icrs'',
                     width = None\<rparr>, raw_data = ''A''\<rparr>,
         \<lparr>meta = \<lparr>order = 3, ipix = 2, file_format = ''fits'', frame = ''icrs'',
                     width = None\<rparr>, raw_data = ''C''\<rparr>]
       \<noteq> set [\<lparr>meta = \<lparr>order = 3, ipix = 0, file_format = ''fits'', frame = ''icrs'',
                     width = None\<rparr>, raw_data = ''A''\<rparr>,
         \<lparr>meta = \<lparr>order = 3, ipix = 1, file_format = ''fits'', frame = ''icrs'',
                     width = None\<rparr>, raw_data = ''B''\<rparr>,
         \<lparr>meta = \<lparr>order = 3, ipix = 2, file_format = ''fits'', frame = ''icrs'',
                     width = None\<rparr>, raw_data = ''C''\<rparr>]"
  by (intro conjI; code_simp)

text \<open>
  Claim C3 (the code departs from it). With everything else fixed, the cooperative
  strategy returns payloads \<open>B\<close>, \<open>A\<close>, \<open>C\<close> with the progress bar and \<open>A\<close>, \<open>B\<close>, \<open>C\<close>
  without it: with the progress bar the responses are collected in completion order.
\<close>

theorem progress_bar_changes_cooperative_result:
  "is_completion_order (length (tile_indices (example_fetcher example_survey True))) [1, 0, 2]
   \<and> tiles_aiohttp (str_format plain_field Unset) (example_fetcher example_survey True) example_server [1, 0, 2]
       = Inr [\<lparr>meta = \<lparr>order = 3, ipix = 0, file_format = ''fits'', frame = ''icrs'',
                     width = None\<rparr>, raw_data = ''B''\<rparr>,
            \<lparr>meta = \<lparr>order = 3, ipix = 1, file_format = ''fits'', frame = ''icrs'',
                     width = None\<rparr>, raw_data = ''A''\<rparr>,
            \<lparr>meta = \<lparr>order = 3, ipix = 2, file_format = ''fits'', frame = ''icrs'',
                     width = None\<rparr>, raw_data = ''C''\<rparr>]
   \<and> tiles_aiohttp (str_format plain_field Unset) (example_fetcher example_survey False) example_server [1, 0, 2]
       = Inr [\<lparr>meta = \<lparr>order = 3, ipix = 0, file_format = ''fits'', frame = ''icrs'',
                     width = None\<rparr>, raw_data = ''A''\<rparr>,
            \<lparr>meta = \<lparr>order = 3, ipix = 1, file_format = ''fits'', frame = ''icrs'',
                     width = None\<rparr>, raw_data = ''B''\<rparr>,
            \<lparr>meta = \<lparr>order = 3, ipix = 2, file_format = ''fits'', frame = ''icrs'',
                     width = None\<rparr>, raw_data = ''C''\<rparr>]"
  by (intro conjI; code_simp)

text \<open>
  Claim C4 (the code departs from it). The server answers the second URL with status 404.
  The thread-pool strategy raises \<^verbatim>\<open>HTTPError\<close>; the cooperative strategy returns three
  tiles, the second one wrapping the body of the error response.
\<close>

theorem cooperative_returns_error_body_as_tile:
  "is_completion_order (length (tile_indices (example_fetcher example_survey False))) [0, 1, 2]
   \<and> missing_tile_server ''http://example.org/Npix1.fits'' = Response 404 ''not found''
   \<and> fetch_tile_threaded missing_tile_server ''http://example.org/Npix1.fits'' = Inl (HTTPError 404)
   \<and> tiles (example_fetcher example_survey False) missing_tile_server [0, 1, 2] = Inl (HTTPError 404)
   \<and> tiles_aiohttp (str_format plain_field Unset) (example_fetcher example_survey False) missing_tile_server [0, 1, 2]
       = Inr [\<lparr>meta = \<lparr>order = 3, ipix = 0, file_format = ''fits'', frame = ''icrs'',
                     width = None\<rparr>, raw_data = ''A''\<rparr>,
            \<lparr>meta = \<lparr>order = 3, ipix = 1, file_format = ''fits'', frame = ''icrs'',
                     width = None\<rparr>, raw_data = ''not found''\<rparr>,
            \<lparr>meta = \<lparr>order = 3, ipix = 2, file_format = ''fits'', frame = ''icrs'',
                     width = None\<rparr>, raw_data = ''C''\<rparr>]"
  by (intro conjI; code_simp)

section \<open>What the fetcher does in general\<close>

lemma mapM_map: "mapM f (map h xs) = mapM (\<lambda>x. f (h x)) xs"
  by (induction xs) (auto split: sum.splits)

lemma completion_order_length:
  assumes "is_completion_order n sched"
  shows "length sched = n"
proof -
  have "card (set sched) = length sched"
    using assms by (intro distinct_card) (simp add: is_completion_order_def)
  moreover have "card (set sched) = n"
    using assms by (simp add: is_completion_order_def)
  ultimately show ?thesis by simp
qed

lemma completion_order_member:
  "is_completion_order n sched \<Longrightarrow> k \<in> set sched \<longleftrightarrow> k < n"
  by (auto simp: is_completion_order_def)

lemma collect_fails:
  assumes "is_completion_order (length fs) sched" and "k < length fs"
    and "fut_result (fs ! k) = Inl e"
  shows "\<exists>e'. mapM fut_result (as_completed fs sched) = Inl e'"
proof -
  have "k \<in> set sched" using assms(1,2) by (simp add: completion_order_member)
  then have "fs ! k \<in> set (as_completed fs sched)" by (auto simp: as_completed_def)
  then show ?thesis using assms(3) by (rule mapM_Inl_if_member)
qed

lemma tiles_progress_bar_irrelevant:
  "tiles (f\<lparr>progress_bar := b\<rparr>) server sched = tiles f server sched"
proof -
  have m: "tile_metas (f\<lparr>progress_bar := b\<rparr>) = tile_metas f"
    by (simp add: tile_metas_def)
  have s: "submitted (f\<lparr>progress_bar := b\<rparr>) server = submitted f server"
    by (simp add: submitted_def tile_urls_def m)
  show ?thesis
    unfolding tiles_def tqdm_def m s by simp
qed

lemma tiles_raises_if_a_fetch_fails:
  assumes "0 < thread_count f" and "is_completion_order (length (tile_indices f)) sched"
    and "k < length (tile_indices f)"
    and "fetch_tile_threaded server (tile_urls f ! k) = Inl e"
  shows "\<exists>e'. tiles f server sched = Inl e'"
proof -
  have len: "length (submitted f server) = length (tile_indices f)"
    by (simp add: submitted_def tile_urls_def tile_metas_def)
  have "fut_result (submitted f server ! k) = Inl e"
    using assms(3,4) by (simp add: submitted_def tile_urls_def tile_metas_def)
  with assms(2,3) len obtain e' where
    "mapM fut_result (as_completed (submitted f server) sched) = Inl e'"
    using collect_fails [of "submitted f server" sched k e] by auto
  then show ?thesis using assms(1) by (auto simp: tiles_def tqdm_def Let_def)
qed

lemma cooperative_raises_if_a_task_fails:
  assumes "scheduled format f server = Inr tasks"
    and "is_completion_order (length tasks) sched"
    and "k < length tasks" and "fut_result (tasks ! k) = Inl e"
  shows "\<exists>e'. tiles_aiohttp format f server sched = Inl e'"
proof -
  from collect_fails [OF assms(2,3,4)] obtain e' where
    "mapM fut_result (as_completed tasks sched) = Inl e'" by blast
  then show ?thesis
    using assms(1) by (auto simp: tiles_aiohttp_def fetch_tiles_aiohttp_def gather_def tqdm_def)
qed

lemma assemble_by_position:
  assumes "length raws = n"
  shows "assemble metas raws = map (\<lambda>k. \<lparr>meta = metas ! k, raw_data = raws ! k\<rparr>) [0..<n]"
  using assms by (auto simp: assemble_def nth_enumerate_eq intro!: nth_equalityI)

lemma tiles_when_all_fetches_succeed:
  assumes "0 < thread_count f" and "is_completion_order (length (tile_indices f)) sched"
    and "\<And>u. u \<in> set (tile_urls f) \<Longrightarrow> fetch_tile_threaded server u = Inr (body u)"
  shows "tiles f server sched
           = Inr (map (\<lambda>k. \<lparr>meta = tile_metas f ! k,
                            raw_data = body (tile_urls f ! (sched ! k))\<rparr>)
                    [0..<length (tile_indices f)])"
proof -
  let ?n = "length (tile_indices f)"
  have n: "length (tile_urls f) = ?n" by (simp add: tile_urls_def tile_metas_def)
  have ls: "length sched = ?n" using assms(2) by (rule completion_order_length)
  have each: "fut_result (submitted f server ! k) = Inr (body (tile_urls f ! k))"
    if "k \<in> set sched" for k
  proof -
    have "k < length (tile_urls f)" using that assms(2) n by (simp add: completion_order_member)
    then show ?thesis using assms(3) by (simp add: submitted_def)
  qed
  have "mapM fut_result (as_completed (submitted f server) sched)
          = Inr (map (\<lambda>k. body (tile_urls f ! k)) sched)"
    unfolding as_completed_def mapM_map using each by (rule mapM_all_Inr)
  moreover have "assemble (tile_metas f) (map (\<lambda>k. body (tile_urls f ! k)) sched)
          = map (\<lambda>k. \<lparr>meta = tile_metas f ! k, raw_data = body (tile_urls f ! (sched ! k))\<rparr>)
              [0..<?n]"
    using ls by (simp add: assemble_by_position [where n = ?n])
  ultimately show ?thesis using assms(1) by (simp add: tiles_def tqdm_def Let_def)
qed

end
